theory Spec2Isabelle
  imports Complex_Main
begin

section \<open>Expressions for orders of magnitude\<close>

text \<open>
  The expression classes of \<^verbatim>\<open>src/ver_1_0/expressions.py\<close>, one constructor per class.
  The operand lists are the Python lists \<^verbatim>\<open>operands\<close>, \<^verbatim>\<open>summands\<close> and \<^verbatim>\<open>factors\<close>. An
  exponent is a \<^verbatim>\<open>Fraction\<close>, hence a rational; the value of a constant is a positive number,
  kept here as a rational. The classes \<^verbatim>\<open>Max\<close> and \<^verbatim>\<open>Min\<close> are written \<open>Max_expr\<close> and
  \<open>Min_expr\<close>.
\<close>

datatype expr =
    Variable string
  | Constant rat
  | Max_expr "expr list"
  | Min_expr "expr list"
  | Add "expr list"
  | Mul "expr list"
  | Div expr expr
  | Power expr rat

text \<open>
  The failures of the program. In the Python they are assertion failures and a
  \<^verbatim>\<open>ValueError\<close>; the names are those of the specification's taxonomy.
\<close>

datatype error = EmptyOperandSet | InternalConsistency | InsufficientArguments

text \<open>
  The constructors of \<^verbatim>\<open>Max\<close>, \<^verbatim>\<open>Min\<close> and \<^verbatim>\<open>Add\<close> assert that they are given at least one
  operand, and the constructor of \<^verbatim>\<open>Constant\<close> that the value is positive. An expression that
  the constructors can build satisfies \<open>wf_expr\<close>.
\<close>

fun wf_expr :: "expr \<Rightarrow> bool" where
  "wf_expr (Variable name) = True"
| "wf_expr (Constant v) = (0 < v)"
| "wf_expr (Max_expr operands) = (operands \<noteq> [] \<and> list_all wf_expr operands)"
| "wf_expr (Min_expr operands) = (operands \<noteq> [] \<and> list_all wf_expr operands)"
| "wf_expr (Add summands) = (summands \<noteq> [] \<and> list_all wf_expr summands)"
| "wf_expr (Mul factors) = list_all wf_expr factors"
| "wf_expr (Div numerator denominator) = (wf_expr numerator \<and> wf_expr denominator)"
| "wf_expr (Power base exponent) = wf_expr base"

subsection \<open>Structural equality\<close>

text \<open>
  \<^verbatim>\<open>defeq\<close> of each class, as in the source: a composite is compared with another instance of
  the same class only, through \<^verbatim>\<open>set_defeq\<close> on the operand lists (\<^verbatim>\<open>Div\<close> and \<^verbatim>\<open>Power\<close>
  field by field).

  Modelled from the spec: the base class \<^verbatim>\<open>Type\<close> (module \<^verbatim>\<open>type\<close>) is not among the sources.
  It supplies the \<^verbatim>\<open>defeq\<close> that \<^verbatim>\<open>Variable\<close> inherits and the function \<^verbatim>\<open>set_defeq\<close>. A
  variable is a leaf with a name and no further structure, and different variants are never
  \<^verbatim>\<open>defeq\<close>: a variable is \<open>defeq\<close> to a variable of the same name only. \<open>set_defeq\<close>
  rejects lists of unequal length and otherwise matches the elements of the first list one by
  one against the second, removing each match (the greedy strategy the specification names).
\<close>

fun defeq :: "expr \<Rightarrow> expr \<Rightarrow> bool"
  and set_defeq :: "expr list \<Rightarrow> expr list \<Rightarrow> bool"
  and remove_defeq :: "expr \<Rightarrow> expr list \<Rightarrow> expr list option"
where
  "defeq (Variable x) other = (case other of Variable y \<Rightarrow> x = y | _ \<Rightarrow> False)"
| "defeq (Constant v) other = (case other of Constant u \<Rightarrow> v = u | _ \<Rightarrow> False)"
| "defeq (Max_expr xs) other = (case other of Max_expr ys \<Rightarrow> set_defeq xs ys | _ \<Rightarrow> False)"
| "defeq (Min_expr xs) other = (case other of Min_expr ys \<Rightarrow> set_defeq xs ys | _ \<Rightarrow> False)"
| "defeq (Add xs) other = (case other of Add ys \<Rightarrow> set_defeq xs ys | _ \<Rightarrow> False)"
| "defeq (Mul xs) other = (case other of Mul ys \<Rightarrow> set_defeq xs ys | _ \<Rightarrow> False)"
| "defeq (Div n d) other =
     (case other of Div n' d' \<Rightarrow> defeq n n' \<and> defeq d d' | _ \<Rightarrow> False)"
| "defeq (Power b e) other =
     (case other of Power b' e' \<Rightarrow> defeq b b' \<and> e = e' | _ \<Rightarrow> False)"
| "set_defeq [] ys = (ys = [])"
| "set_defeq (x # xs) ys =
     (if length (x # xs) \<noteq> length ys then False
      else case remove_defeq x ys of None \<Rightarrow> False | Some ys' \<Rightarrow> set_defeq xs ys')"
| "remove_defeq x [] = None"
| "remove_defeq x (y # ys) =
     (if defeq x y then Some ys else map_option (Cons y) (remove_defeq x ys))"

text \<open>
  Modelled from the spec: \<^verbatim>\<open>add_to\<close>, a method of the missing base class, adds an object to
  a set keyed by \<^verbatim>\<open>defeq\<close>: an object that is \<^verbatim>\<open>defeq\<close> to a member is not added. The Python
  set is a list here, in the order of insertion. \<open>add_all\<close> is the inner loop
  \<^verbatim>\<open>for sub_op in op.operands: sub_op.add_to(new_operands)\<close>.
\<close>

definition add_to :: "expr \<Rightarrow> expr list \<Rightarrow> expr list" where
  "add_to x S = (if list_ex (defeq x) S then S else S @ [x])"

fun add_all :: "expr list \<Rightarrow> expr list \<Rightarrow> expr list" where
  "add_all [] S = S"
| "add_all (x # xs) S = add_all xs (add_to x S)"

text \<open>\<^verbatim>\<open>Expression.mul\<close>: the product of two expressions, with the products among them flattened.\<close>

definition expr_mul :: "expr \<Rightarrow> expr \<Rightarrow> expr" where
  "expr_mul self other =
     Mul ((case self of Mul fs \<Rightarrow> fs | _ \<Rightarrow> [self]) @
          (case other of Mul gs \<Rightarrow> gs | _ \<Rightarrow> [other]))"

subsection \<open>Normalization\<close>

text \<open>
  A call of \<^verbatim>\<open>simp\<close> returns an expression, raises, or does not return: its result is
  \<open>Some (Inr e)\<close>, \<open>Some (Inl err)\<close> or \<open>None\<close>. \<open>bind_res\<close> continues with the value of a
  call that returned one.
\<close>

definition bind_res ::
  "(error + 'a) option \<Rightarrow> ('a \<Rightarrow> (error + 'b) option) \<Rightarrow> (error + 'b) option" where
  "bind_res m k =
     (case m of None \<Rightarrow> None | Some (Inl err) \<Rightarrow> Some (Inl err) | Some (Inr x) \<Rightarrow> k x)"

text \<open>
  The loops of \<^verbatim>\<open>Max.simp\<close>, \<^verbatim>\<open>Min.simp\<close> and \<^verbatim>\<open>Mul.simp\<close>. Each takes the recursive call
  \<open>rec\<close> (\<^verbatim>\<open>simp\<close> with the hypotheses of the caller) and the value of the loop's variable
  so far.
\<close>

fun Max_loop ::
  "(expr \<Rightarrow> (error + expr) option) \<Rightarrow> expr list \<Rightarrow> expr list \<Rightarrow> (error + expr list) option"
where
  "Max_loop rec [] new_operands = Some (Inr new_operands)"
| "Max_loop rec (op # ops) new_operands =
     bind_res (rec op) (\<lambda>op'.
       Max_loop rec ops (case op' of Max_expr subs \<Rightarrow> add_all subs new_operands
                         | _ \<Rightarrow> add_to op' new_operands))"

fun Min_loop ::
  "(expr \<Rightarrow> (error + expr) option) \<Rightarrow> expr list \<Rightarrow> expr list \<Rightarrow> (error + expr list) option"
where
  "Min_loop rec [] new_operands = Some (Inr new_operands)"
| "Min_loop rec (op # ops) new_operands =
     bind_res (rec op) (\<lambda>op'.
       Min_loop rec ops (case op' of Min_expr subs \<Rightarrow> add_all subs new_operands
                         | _ \<Rightarrow> add_to op' new_operands))"

text \<open>First loop of \<^verbatim>\<open>Mul.simp\<close>: flatten nested products and delete constants.\<close>

fun flatten_loop ::
  "(expr \<Rightarrow> (error + expr) option) \<Rightarrow> expr list \<Rightarrow> expr list \<Rightarrow> (error + expr list) option"
where
  "flatten_loop rec [] new_factors = Some (Inr new_factors)"
| "flatten_loop rec (factor # factors) new_factors =
     bind_res (rec factor) (\<lambda>factor'.
       flatten_loop rec factors (case factor' of Mul subs \<Rightarrow> new_factors @ subs
                                 | Constant v \<Rightarrow> new_factors
                                 | _ \<Rightarrow> new_factors @ [factor']))"

text \<open>
  Second loop: gather the factors by base, up to \<^verbatim>\<open>defeq\<close>, and add the exponents. The
  dictionary \<^verbatim>\<open>terms\<close> keeps its keys in the order of insertion: an association list.
  \<open>add_term\<close> is the inner loop over the keys together with the insertion of a new key.
\<close>

fun add_term :: "expr \<Rightarrow> rat \<Rightarrow> (expr \<times> rat) list \<Rightarrow> (expr \<times> rat) list" where
  "add_term base exponent [] = [(base, exponent)]"
| "add_term base exponent ((b, eb) # terms) =
     (if defeq base b then (b, eb + exponent) # terms
      else (b, eb) # add_term base exponent terms)"

fun gather_loop :: "expr list \<Rightarrow> (expr \<times> rat) list \<Rightarrow> (expr \<times> rat) list" where
  "gather_loop [] terms = terms"
| "gather_loop (factor # factors) terms =
     gather_loop factors
       (case factor of Power base exponent \<Rightarrow> add_term base exponent terms
        | _ \<Rightarrow> add_term factor 1 terms)"

text \<open>Third loop: simplify all monomials and remove constants.\<close>

fun collapse_loop ::
  "(expr \<Rightarrow> (error + expr) option) \<Rightarrow> (expr \<times> rat) list \<Rightarrow> expr list
    \<Rightarrow> (error + expr list) option"
where
  "collapse_loop rec [] final_factors = Some (Inr final_factors)"
| "collapse_loop rec ((base, exponent) # terms) final_factors =
     bind_res (rec (Power base exponent)) (\<lambda>monomial.
       collapse_loop rec terms (case monomial of Constant v \<Rightarrow> final_factors
                                | _ \<Rightarrow> final_factors @ [monomial]))"

text \<open>The loops are monotone in the recursive call, as a recursive definition needs.\<close>

lemma bind_res_mono [partial_function_mono]:
  fixes B :: "('x \<Rightarrow> 'y option) \<Rightarrow> (error + 'a) option"
  assumes "mono_option B" and "\<And>y. mono_option (\<lambda>f. C y f)"
  shows "mono_option (\<lambda>f. bind_res (B f) (\<lambda>y. C y f))"
proof (rule monotoneI)
  fix f g :: "'x \<Rightarrow> 'y option"
  assume fg: "option.le_fun f g"
  have B: "option_ord (B f) (B g)"
    using assms(1) fg by (simp add: monotone_on_def)
  have C: "option_ord (C y f) (C y g)" for y
    using assms(2) [of y] fg by (simp add: monotone_on_def)
  show "option_ord (bind_res (B f) (\<lambda>y. C y f)) (bind_res (B g) (\<lambda>y. C y g))"
  proof (cases "B f")
    case None
    then show ?thesis by (simp add: bind_res_def flat_ord_def)
  next
    case (Some r)
    with B have "B g = Some r" by (simp add: flat_ord_def)
    with Some C show ?thesis by (cases r) (simp_all add: bind_res_def flat_ord_def)
  qed
qed

lemma Max_loop_mono [partial_function_mono]:
  assumes "\<And>x. mono_option (\<lambda>f. F f x)"
  shows "mono_option (\<lambda>f. Max_loop (F f) ops acc)"
proof (induction ops arbitrary: acc)
  case Nil
  show ?case by (simp add: option.const_mono)
next
  case (Cons op ops)
  show ?case
    unfolding Max_loop.simps
    by (rule bind_res_mono) (rule assms, rule Cons.IH)
qed

lemma Min_loop_mono [partial_function_mono]:
  assumes "\<And>x. mono_option (\<lambda>f. F f x)"
  shows "mono_option (\<lambda>f. Min_loop (F f) ops acc)"
proof (induction ops arbitrary: acc)
  case Nil
  show ?case by (simp add: option.const_mono)
next
  case (Cons op ops)
  show ?case
    unfolding Min_loop.simps
    by (rule bind_res_mono) (rule assms, rule Cons.IH)
qed

lemma flatten_loop_mono [partial_function_mono]:
  assumes "\<And>x. mono_option (\<lambda>f. F f x)"
  shows "mono_option (\<lambda>f. flatten_loop (F f) factors acc)"
proof (induction factors arbitrary: acc)
  case Nil
  show ?case by (simp add: option.const_mono)
next
  case (Cons factor factors)
  show ?case
    unfolding flatten_loop.simps
    by (rule bind_res_mono) (rule assms, rule Cons.IH)
qed

lemma collapse_loop_mono [partial_function_mono]:
  assumes "\<And>x. mono_option (\<lambda>f. F f x)"
  shows "mono_option (\<lambda>f. collapse_loop (F f) terms acc)"
proof (induction terms arbitrary: acc)
  case Nil
  show ?case by (simp add: option.const_mono)
next
  case (Cons t terms)
  obtain base exponent where t: "t = (base, exponent)" by (cases t)
  show ?case
    unfolding t collapse_loop.simps
    by (rule bind_res_mono) (rule assms, rule Cons.IH)
qed

text \<open>
  \<^verbatim>\<open>simp\<close> of every class, in one function over the variants. The argument \<open>hypotheses\<close> is
  passed on to every recursive call and not looked at.
  \<^item> \<^verbatim>\<open>Max.simp\<close> and \<^verbatim>\<open>Min.simp\<close> assert that the set of new operands is not empty, return its
    element when it has one, and build a new \<^verbatim>\<open>Max\<close> or \<^verbatim>\<open>Min\<close> otherwise.
  \<^item> \<^verbatim>\<open>Add.simp\<close> builds \<^verbatim>\<open>Max(*self.summands)\<close>, whose constructor asserts that there is a
    summand, and simplifies it.
  \<^item> \<^verbatim>\<open>Mul.simp\<close> runs its three loops and returns \<^verbatim>\<open>Mul(*final_factors)\<close>.
  \<^item> \<^verbatim>\<open>Div.simp\<close> simplifies \<^verbatim>\<open>numerator * denominator ** (-1)\<close>.
  \<^item> \<^verbatim>\<open>Power.simp\<close> simplifies the base and then looks at the exponent and at the simplified
    base, in the order of the source.

  Modelled from the spec: \<^verbatim>\<open>Variable\<close> inherits \<^verbatim>\<open>simp\<close> from the missing base class; a
  variable is already normal and is returned as it is.
\<close>

partial_function (option) simp :: "'h \<Rightarrow> expr \<Rightarrow> (error + expr) option" where
  "simp hypotheses e =
    (case e of
       Variable name \<Rightarrow> Some (Inr (Variable name))
     | Constant v \<Rightarrow> Some (Inr (Constant 1))
     | Max_expr operands \<Rightarrow>
         bind_res (Max_loop (simp hypotheses) operands []) (\<lambda>new_operands.
           case new_operands of
             [] \<Rightarrow> Some (Inl InternalConsistency)
           | [x] \<Rightarrow> Some (Inr x)
           | _ \<Rightarrow> Some (Inr (Max_expr new_operands)))
     | Min_expr operands \<Rightarrow>
         bind_res (Min_loop (simp hypotheses) operands []) (\<lambda>new_operands.
           case new_operands of
             [] \<Rightarrow> Some (Inl InternalConsistency)
           | [x] \<Rightarrow> Some (Inr x)
           | _ \<Rightarrow> Some (Inr (Min_expr new_operands)))
     | Add summands \<Rightarrow>
         (if summands = [] then Some (Inl EmptyOperandSet)
          else simp hypotheses (Max_expr summands))
     | Mul factors \<Rightarrow>
         bind_res (flatten_loop (simp hypotheses) factors []) (\<lambda>new_factors.
           bind_res (collapse_loop (simp hypotheses) (gather_loop new_factors []) [])
             (\<lambda>final_factors. Some (Inr (Mul final_factors))))
     | Div numerator denominator \<Rightarrow>
         simp hypotheses (expr_mul numerator (Power denominator (- 1)))
     | Power base exponent \<Rightarrow>
         bind_res (simp hypotheses base) (\<lambda>base'.
           if exponent = 1 then Some (Inr base')
           else if exponent = 0 \<or> (case base' of Constant v \<Rightarrow> True | _ \<Rightarrow> False)
             then Some (Inr (Constant 1))
           else case base' of
               Power b2 e2 \<Rightarrow> Some (Inr (Power b2 (e2 * exponent)))
             | Mul fs \<Rightarrow> simp hypotheses (Mul (map (\<lambda>factor. Power factor exponent) fs))
             | _ \<Rightarrow> Some (Inr (Power base' exponent))))"

declare simp.simps [code]

section \<open>Estimates\<close>

text \<open>
  The five operators of \<^verbatim>\<open>src/ver_1_0/estimates.py\<close>: \<^verbatim>\<open><~\<close>, \<^verbatim>\<open><<\<close>, \<^verbatim>\<open>~\<close>, \<^verbatim>\<open>>~\<close> and \<^verbatim>\<open>>>\<close>.
  The constructor of \<^verbatim>\<open>Estimate\<close> asserts that its operator is one of them.

  Modelled from the spec: the module \<^verbatim>\<open>statements\<close> is not among the sources. Its \<^verbatim>\<open>Bool\<close>,
  \<^verbatim>\<open>And\<close> and \<^verbatim>\<open>Or\<close> are the constructors of the boolean statement framework, which keep the
  statements they are given.
\<close>

datatype operator = Lesssim | Ll | Asymp | Gtrsim | Gg

datatype statement =
    Bool bool
  | Estimate expr operator expr
  | And "statement list"
  | Or "statement list"

text \<open>
  \<^verbatim>\<open>Estimate.simp\<close>: an estimate with \<^verbatim>\<open><~\<close> or \<^verbatim>\<open><<\<close> is reversed first; then the quotient
  of the two sides is simplified and compared with \<^verbatim>\<open>Constant(1)\<close>.
\<close>

function Estimate_simp :: "'h \<Rightarrow> expr \<Rightarrow> operator \<Rightarrow> expr \<Rightarrow> (error + statement) option" where
  "Estimate_simp hypotheses left operator right =
     (if operator = Lesssim then Estimate_simp hypotheses right Gtrsim left
      else if operator = Ll then Estimate_simp hypotheses right Gg left
      else bind_res (simp hypotheses (Div left right)) (\<lambda>left'.
        if defeq left' (Constant 1)
        then Some (Inr (Bool (operator \<in> {Lesssim, Gtrsim, Asymp})))
        else Some (Inr (Estimate left' operator (Constant 1)))))"
  by pat_completeness auto
termination
  by (relation "measure (\<lambda>(h, l, operator, r). if operator \<in> {Lesssim, Ll} then 1 else 0)") auto

declare Estimate_simp.simps [simp del]

text \<open>
  The operator that \<^verbatim>\<open>Estimate.simp\<close> works with after its first two tests: \<^verbatim>\<open><~\<close> has become
  \<^verbatim>\<open>>~\<close> and \<^verbatim>\<open><<\<close> has become \<^verbatim>\<open>>>\<close> (with the two sides exchanged); the other operators
  are kept.
\<close>

fun reversed_operator :: "operator \<Rightarrow> operator" where
  "reversed_operator Lesssim = Gtrsim"
| "reversed_operator Ll = Gg"
| "reversed_operator operator = operator"

subsection \<open>The Littlewood-Paley property\<close>

text \<open>\<^verbatim>\<open>itertools.combinations(args, 2)\<close>: the pairs of positions \<open>i < j\<close>, in lexicographic order.\<close>

fun combinations2 :: "'a list \<Rightarrow> ('a \<times> 'a) list" where
  "combinations2 [] = []"
| "combinations2 (x # xs) = map (Pair x) xs @ combinations2 xs"

text \<open>
  \<^verbatim>\<open>LP_property\<close> of \<^verbatim>\<open>src/ver_1_0/estimates.py\<close>. The set \<^verbatim>\<open>conjuncts\<close> holds estimates, which
  are distinct objects: it is the list of its elements in the order of insertion.
\<close>

definition LP_conjuncts :: "expr list \<Rightarrow> expr \<Rightarrow> expr \<Rightarrow> statement list" where
  "LP_conjuncts args expr1 expr2 =
     Estimate expr1 Asymp expr2 #
     map (\<lambda>other_expr. Estimate other_expr Lesssim expr1)
       (filter (\<lambda>other_expr. \<not> defeq other_expr expr1 \<and> \<not> defeq other_expr expr2) args)"

definition LP_property :: "expr list \<Rightarrow> error + statement" where
  "LP_property args =
     (if \<not> length args > 1 then Inl InsufficientArguments
      else Inr (Or (map (\<lambda>(expr1, expr2). And (LP_conjuncts args expr1 expr2))
                     (combinations2 args))))"

text \<open>
  \<^verbatim>\<open>LittlewoodPaley.__new__\<close> of \<^verbatim>\<open>src/littlewood_paley.py\<close>. The functions \<^verbatim>\<open>asymp\<close> and
  \<^verbatim>\<open>Theta\<close> come from a module that is not among the sources and are the parameters
  \<open>asymp_of\<close> and \<open>Theta\<close>. The result
  is the relation that \<^verbatim>\<open>asymp\<close> builds, or a new object over the arguments under \<^verbatim>\<open>Theta\<close>.
\<close>

datatype ('r, 't) littlewood_paley = Relation 'r | LittlewoodPaley "'t list"

definition LittlewoodPaley_new ::
  "('a \<Rightarrow> 'a \<Rightarrow> 'r) \<Rightarrow> ('a \<Rightarrow> 't) \<Rightarrow> 'a list \<Rightarrow> error + ('r, 't) littlewood_paley" where
  "LittlewoodPaley_new asymp_of Theta args =
     (if length args < 2 then Inl InsufficientArguments
      else if length args = 2 then Inr (Relation (asymp_of (args ! 0) (args ! 1)))
      else Inr (LittlewoodPaley (map Theta args)))"

section \<open>Evaluation of simp\<close>

text \<open>The recursion equation of \<open>simp\<close>, variant by variant.\<close>

lemma simp_Variable: "simp h (Variable name) = Some (Inr (Variable name))"
  by (subst simp.simps) simp

lemma simp_Constant: "simp h (Constant v) = Some (Inr (Constant 1))"
  by (subst simp.simps) simp

lemma simp_Max:
  "simp h (Max_expr operands) =
     bind_res (Max_loop (simp h) operands []) (\<lambda>new_operands.
       case new_operands of
         [] \<Rightarrow> Some (Inl InternalConsistency)
       | [x] \<Rightarrow> Some (Inr x)
       | _ \<Rightarrow> Some (Inr (Max_expr new_operands)))"
  by (subst simp.simps) simp

lemma simp_Min:
  "simp h (Min_expr operands) =
     bind_res (Min_loop (simp h) operands []) (\<lambda>new_operands.
       case new_operands of
         [] \<Rightarrow> Some (Inl InternalConsistency)
       | [x] \<Rightarrow> Some (Inr x)
       | _ \<Rightarrow> Some (Inr (Min_expr new_operands)))"
  by (subst simp.simps) simp

lemma simp_Add:
  "simp h (Add summands) =
     (if summands = [] then Some (Inl EmptyOperandSet) else simp h (Max_expr summands))"
  by (subst simp.simps) simp

lemma simp_Mul:
  "simp h (Mul factors) =
     bind_res (flatten_loop (simp h) factors []) (\<lambda>new_factors.
       bind_res (collapse_loop (simp h) (gather_loop new_factors []) [])
         (\<lambda>final_factors. Some (Inr (Mul final_factors))))"
  by (subst simp.simps) simp

lemma simp_Div:
  "simp h (Div numerator denominator) = simp h (expr_mul numerator (Power denominator (- 1)))"
  by (subst simp.simps) simp

lemma simp_Power:
  "simp h (Power base exponent) =
     bind_res (simp h base) (\<lambda>base'.
       if exponent = 1 then Some (Inr base')
       else if exponent = 0 \<or> (case base' of Constant v \<Rightarrow> True | _ \<Rightarrow> False)
         then Some (Inr (Constant 1))
       else case base' of
           Power b2 e2 \<Rightarrow> Some (Inr (Power b2 (e2 * exponent)))
         | Mul fs \<Rightarrow> simp h (Mul (map (\<lambda>factor. Power factor exponent) fs))
         | _ \<Rightarrow> Some (Inr (Power base' exponent)))"
  by (subst simp.simps) simp

lemmas simp_eqs =
  simp_Variable simp_Constant simp_Max simp_Min simp_Add simp_Mul simp_Div simp_Power

lemma bind_res_simps:
  "bind_res None k = None"
  "bind_res (Some (Inl err)) k = Some (Inl err)"
  "bind_res (Some (Inr x)) k = k x"
  by (simp_all add: bind_res_def)

section \<open>Termination of simp\<close>

text \<open>
  \<^verbatim>\<open>Mul.simp\<close> and \<^verbatim>\<open>Power.simp\<close> call \<^verbatim>\<open>simp\<close> on expressions that they build from results
  of \<^verbatim>\<open>simp\<close>, so the recursion is not structural. It is bounded by a weight under which a
  power weighs twice its base (once, when the base is a power itself) and a product weighs
  its factors as if each were a power. No result of \<^verbatim>\<open>simp\<close> weighs more than its argument,
  and every recursive call is on a lighter expression, or on a subexpression that is not
  heavier. \<open>pweight f\<close> is the weight of \<open>f\<close> as a factor of a product.
\<close>

fun weight :: "expr \<Rightarrow> nat" where
  "weight (Variable name) = 1"
| "weight (Constant v) = 1"
| "weight (Max_expr operands) = 1 + sum_list (map weight operands)"
| "weight (Min_expr operands) = 1 + sum_list (map weight operands)"
| "weight (Add summands) = 2 + sum_list (map weight summands)"
| "weight (Mul factors) =
     1 + sum_list (map (\<lambda>f. case f of Power b e \<Rightarrow> weight f | _ \<Rightarrow> 2 * weight f) factors)"
| "weight (Div numerator denominator) =
     2 + (case numerator of Power b e \<Rightarrow> weight numerator | _ \<Rightarrow> 2 * weight numerator)
       + (case denominator of Power b e \<Rightarrow> weight denominator | _ \<Rightarrow> 2 * weight denominator)"
| "weight (Power base exponent) =
     (case base of Power b e \<Rightarrow> weight base | _ \<Rightarrow> 2 * weight base)"

definition pweight :: "expr \<Rightarrow> nat" where
  "pweight f = (case f of Power b e \<Rightarrow> weight f | _ \<Rightarrow> 2 * weight f)"

lemma weight_Mul: "weight (Mul factors) = 1 + sum_list (map pweight factors)"
  by (simp add: pweight_def [abs_def])

lemma weight_Div: "weight (Div n d) = 2 + pweight n + pweight d"
  by (simp add: pweight_def)

lemma weight_Power: "weight (Power base exponent) = pweight base"
  by (simp add: pweight_def)

lemma pweight_Power: "pweight (Power base exponent) = pweight base"
  by (simp add: pweight_def)

lemma weight_pos: "0 < weight e"
proof (induction e)
  case (Power b ex)
  then show ?case by (cases b) simp_all
qed simp_all

lemma pweight_le: "pweight e \<le> 2 * weight e"
  by (cases e) (simp_all add: pweight_def)

lemma weight_le_pweight: "weight e \<le> pweight e"
  by (cases e) (simp_all add: pweight_def)

lemma pweight_ge2: "2 \<le> pweight e"
proof (induction e)
  case (Power b ex)
  then show ?case by (simp add: pweight_Power)
next
  case (Max_expr x)
  show ?case by (simp add: pweight_def)
next
  case (Min_expr x)
  show ?case by (simp add: pweight_def)
next
  case (Add x)
  show ?case by (simp add: pweight_def)
next
  case (Mul x)
  show ?case by (simp add: pweight_def)
next
  case (Div n d)
  show ?case by (simp add: pweight_def)
qed (simp_all add: pweight_def)

declare weight.simps(6,7,8) [simp del]

lemmas weight_eqs = weight_Mul weight_Div weight_Power pweight_Power

definition simp_ok :: "(expr \<Rightarrow> (error + expr) option) \<Rightarrow> expr \<Rightarrow> bool" where
  "simp_ok rec x =
     (\<exists>r. rec x = Some (Inr r) \<and> wf_expr r \<and> weight r \<le> weight x \<and> pweight r \<le> pweight x)"

lemma simp_okE:
  assumes "simp_ok rec x"
  obtains r where "rec x = Some (Inr r)" "wf_expr r" "weight r \<le> weight x" "pweight r \<le> pweight x"
  using assms unfolding simp_ok_def by blast

lemma add_to_props:
  assumes "wf_expr x" "list_all wf_expr S"
  shows "list_all wf_expr (add_to x S)"
    and "sum_list (map weight (add_to x S)) \<le> sum_list (map weight S) + weight x"
    and "add_to x S \<noteq> []"
  using assms by (auto simp add: add_to_def)

lemma add_all_props:
  assumes "list_all wf_expr xs" "list_all wf_expr S"
  shows "list_all wf_expr (add_all xs S)
    \<and> sum_list (map weight (add_all xs S)) \<le> sum_list (map weight S) + sum_list (map weight xs)
    \<and> (xs \<noteq> [] \<or> S \<noteq> [] \<longrightarrow> add_all xs S \<noteq> [])"
  using assms
proof (induction xs arbitrary: S)
  case Nil
  then show ?case by simp
next
  case (Cons x xs)
  from Cons.prems have x: "wf_expr x" and xs: "list_all wf_expr xs" by simp_all
  note a = add_to_props [OF x Cons.prems(2)]
  from Cons.IH [OF xs a(1)] a(2) a(3) show ?case by simp
qed

lemma Max_step:
  assumes "wf_expr r" "list_all wf_expr acc"
  defines "acc' \<equiv> (case r of Max_expr subs \<Rightarrow> add_all subs acc | _ \<Rightarrow> add_to r acc)"
  shows "list_all wf_expr acc'"
    and "sum_list (map weight acc') \<le> sum_list (map weight acc) + weight r"
    and "acc' \<noteq> []"
proof -
  have "list_all wf_expr acc' \<and> sum_list (map weight acc') \<le> sum_list (map weight acc) + weight r
    \<and> acc' \<noteq> []"
  proof (cases "\<exists>subs. r = Max_expr subs")
    case True
    then obtain subs where r: "r = Max_expr subs" by blast
    with assms(1) have "list_all wf_expr subs" "subs \<noteq> []" by simp_all
    with add_all_props [of subs acc] assms(2) show ?thesis by (simp add: acc'_def r)
  next
    case False
    then have "acc' = add_to r acc" by (cases r) (simp_all add: acc'_def)
    with add_to_props [OF assms(1,2)] show ?thesis by simp
  qed
  then show "list_all wf_expr acc'"
    and "sum_list (map weight acc') \<le> sum_list (map weight acc) + weight r"
    and "acc' \<noteq> []" by simp_all
qed

lemma Min_step:
  assumes "wf_expr r" "list_all wf_expr acc"
  defines "acc' \<equiv> (case r of Min_expr subs \<Rightarrow> add_all subs acc | _ \<Rightarrow> add_to r acc)"
  shows "list_all wf_expr acc'"
    and "sum_list (map weight acc') \<le> sum_list (map weight acc) + weight r"
    and "acc' \<noteq> []"
proof -
  have "list_all wf_expr acc' \<and> sum_list (map weight acc') \<le> sum_list (map weight acc) + weight r
    \<and> acc' \<noteq> []"
  proof (cases "\<exists>subs. r = Min_expr subs")
    case True
    then obtain subs where r: "r = Min_expr subs" by blast
    with assms(1) have "list_all wf_expr subs" "subs \<noteq> []" by simp_all
    with add_all_props [of subs acc] assms(2) show ?thesis by (simp add: acc'_def r)
  next
    case False
    then have "acc' = add_to r acc" by (cases r) (simp_all add: acc'_def)
    with add_to_props [OF assms(1,2)] show ?thesis by simp
  qed
  then show "list_all wf_expr acc'"
    and "sum_list (map weight acc') \<le> sum_list (map weight acc) + weight r"
    and "acc' \<noteq> []" by simp_all
qed

lemma Max_loop_ok:
  assumes "list_all (simp_ok rec) ops" "list_all wf_expr acc"
  shows "\<exists>new. Max_loop rec ops acc = Some (Inr new) \<and> list_all wf_expr new
    \<and> sum_list (map weight new) \<le> sum_list (map weight acc) + sum_list (map weight ops)
    \<and> (ops \<noteq> [] \<or> acc \<noteq> [] \<longrightarrow> new \<noteq> [])"
  using assms
proof (induction ops arbitrary: acc)
  case Nil
  then show ?case by simp
next
  case (Cons op ops)
  from Cons.prems(1) have ok: "simp_ok rec op" and oks: "list_all (simp_ok rec) ops" by simp_all
  from ok obtain r where r: "rec op = Some (Inr r)" "wf_expr r" "weight r \<le> weight op"
    by (rule simp_okE)
  define acc' where "acc' = (case r of Max_expr subs \<Rightarrow> add_all subs acc | _ \<Rightarrow> add_to r acc)"
  note st = Max_step [OF r(2) Cons.prems(2), folded acc'_def]
  from Cons.IH [OF oks st(1)] obtain new where new:
    "Max_loop rec ops acc' = Some (Inr new)" "list_all wf_expr new"
    "sum_list (map weight new) \<le> sum_list (map weight acc') + sum_list (map weight ops)"
    "new \<noteq> []"
    using st(3) by blast
  have "Max_loop rec (op # ops) acc = Some (Inr new)"
    by (simp add: r(1) bind_res_simps new(1) [unfolded acc'_def])
  with new st(2) r(3) show ?case by simp
qed

lemma Min_loop_ok:
  assumes "list_all (simp_ok rec) ops" "list_all wf_expr acc"
  shows "\<exists>new. Min_loop rec ops acc = Some (Inr new) \<and> list_all wf_expr new
    \<and> sum_list (map weight new) \<le> sum_list (map weight acc) + sum_list (map weight ops)
    \<and> (ops \<noteq> [] \<or> acc \<noteq> [] \<longrightarrow> new \<noteq> [])"
  using assms
proof (induction ops arbitrary: acc)
  case Nil
  then show ?case by simp
next
  case (Cons op ops)
  from Cons.prems(1) have ok: "simp_ok rec op" and oks: "list_all (simp_ok rec) ops" by simp_all
  from ok obtain r where r: "rec op = Some (Inr r)" "wf_expr r" "weight r \<le> weight op"
    by (rule simp_okE)
  define acc' where "acc' = (case r of Min_expr subs \<Rightarrow> add_all subs acc | _ \<Rightarrow> add_to r acc)"
  note st = Min_step [OF r(2) Cons.prems(2), folded acc'_def]
  from Cons.IH [OF oks st(1)] obtain new where new:
    "Min_loop rec ops acc' = Some (Inr new)" "list_all wf_expr new"
    "sum_list (map weight new) \<le> sum_list (map weight acc') + sum_list (map weight ops)"
    "new \<noteq> []"
    using st(3) by blast
  have "Min_loop rec (op # ops) acc = Some (Inr new)"
    by (simp add: r(1) bind_res_simps new(1) [unfolded acc'_def])
  with new st(2) r(3) show ?case by simp
qed


lemma flatten_step:
  assumes "wf_expr r" "list_all wf_expr acc"
  defines "acc' \<equiv> (case r of Mul subs \<Rightarrow> acc @ subs | Constant v \<Rightarrow> acc | _ \<Rightarrow> acc @ [r])"
  shows "list_all wf_expr acc'"
    and "sum_list (map pweight acc') \<le> sum_list (map pweight acc) + pweight r"
proof -
  have "list_all wf_expr acc'
    \<and> sum_list (map pweight acc') \<le> sum_list (map pweight acc) + pweight r"
  proof (cases r)
    case (Mul subs)
    have "sum_list (map pweight subs) \<le> weight r" by (simp add: Mul weight_Mul)
    also have "\<dots> \<le> pweight r" by (rule weight_le_pweight)
    finally show ?thesis using assms(1,2) by (simp add: acc'_def Mul)
  qed (use assms(1,2) in \<open>simp_all add: acc'_def\<close>)
  then show "list_all wf_expr acc'"
    and "sum_list (map pweight acc') \<le> sum_list (map pweight acc) + pweight r" by simp_all
qed

lemma flatten_loop_ok:
  assumes "list_all (simp_ok rec) factors" "list_all wf_expr acc"
  shows "\<exists>new. flatten_loop rec factors acc = Some (Inr new) \<and> list_all wf_expr new
    \<and> sum_list (map pweight new) \<le> sum_list (map pweight acc) + sum_list (map pweight factors)"
  using assms
proof (induction factors arbitrary: acc)
  case Nil
  then show ?case by simp
next
  case (Cons f fs)
  from Cons.prems(1) have ok: "simp_ok rec f" and oks: "list_all (simp_ok rec) fs" by simp_all
  from ok obtain r where r: "rec f = Some (Inr r)" "wf_expr r" "pweight r \<le> pweight f"
    by (rule simp_okE)
  define acc' where
    "acc' = (case r of Mul subs \<Rightarrow> acc @ subs | Constant v \<Rightarrow> acc | _ \<Rightarrow> acc @ [r])"
  note st = flatten_step [OF r(2) Cons.prems(2), folded acc'_def]
  from Cons.IH [OF oks st(1)] obtain new where new:
    "flatten_loop rec fs acc' = Some (Inr new)" "list_all wf_expr new"
    "sum_list (map pweight new) \<le> sum_list (map pweight acc') + sum_list (map pweight fs)"
    by blast
  have "flatten_loop rec (f # fs) acc = Some (Inr new)"
    by (simp add: r(1) bind_res_simps new(1) [unfolded acc'_def])
  with new st(2) r(3) show ?case by simp
qed

definition terms_weight :: "(expr \<times> rat) list \<Rightarrow> nat" where
  "terms_weight terms = sum_list (map (\<lambda>(b, e). pweight b) terms)"

definition terms_wf :: "(expr \<times> rat) list \<Rightarrow> bool" where
  "terms_wf terms = list_all (\<lambda>(b, e). wf_expr b) terms"

lemma add_term_props:
  assumes "wf_expr base" "terms_wf terms"
  shows "terms_wf (add_term base exponent terms)
    \<and> terms_weight (add_term base exponent terms) \<le> terms_weight terms + pweight base"
  using assms
  by (induction base exponent terms rule: add_term.induct)
     (auto simp add: terms_wf_def terms_weight_def)

lemma gather_step:
  assumes "wf_expr f" "terms_wf terms"
  defines "terms' \<equiv> (case f of Power base exponent \<Rightarrow> add_term base exponent terms
                      | _ \<Rightarrow> add_term f 1 terms)"
  shows "terms_wf terms' \<and> terms_weight terms' \<le> terms_weight terms + pweight f"
proof (cases f)
  case (Power b ex)
  with assms(1) have "wf_expr b" by simp
  from add_term_props [OF this assms(2), of ex] show ?thesis
    by (simp add: terms'_def Power pweight_Power)
qed (use add_term_props [OF assms(1,2), of 1] in \<open>simp_all add: terms'_def\<close>)

lemma gather_loop_props:
  assumes "list_all wf_expr factors" "terms_wf terms"
  shows "terms_wf (gather_loop factors terms)
    \<and> terms_weight (gather_loop factors terms)
        \<le> terms_weight terms + sum_list (map pweight factors)"
  using assms
proof (induction factors arbitrary: terms)
  case Nil
  then show ?case by simp
next
  case (Cons f fs)
  from Cons.prems(1) have f: "wf_expr f" and fs: "list_all wf_expr fs" by simp_all
  define terms' where "terms' = (case f of Power base exponent \<Rightarrow> add_term base exponent terms
                      | _ \<Rightarrow> add_term f 1 terms)"
  note st = gather_step [OF f Cons.prems(2), folded terms'_def]
  from st have wf': "terms_wf terms'" by simp
  from Cons.IH [OF fs wf'] st show ?case
    by (simp add: terms'_def [symmetric])
qed

lemma collapse_loop_ok:
  assumes "list_all (\<lambda>(b, e). simp_ok rec (Power b e)) terms" "list_all wf_expr acc"
  shows "\<exists>final. collapse_loop rec terms acc = Some (Inr final) \<and> list_all wf_expr final
    \<and> sum_list (map pweight final) \<le> sum_list (map pweight acc) + terms_weight terms"
  using assms
proof (induction terms arbitrary: acc)
  case Nil
  then show ?case by (simp add: terms_weight_def)
next
  case (Cons t ts)
  obtain b ex where t: "t = (b, ex)" by (cases t)
  from Cons.prems(1) have ok: "simp_ok rec (Power b ex)"
    and oks: "list_all (\<lambda>(b, e). simp_ok rec (Power b e)) ts" by (simp_all add: t)
  from ok obtain m where m: "rec (Power b ex) = Some (Inr m)" "wf_expr m" "pweight m \<le> pweight b"
    by (rule simp_okE) (simp add: pweight_Power)
  define acc' where "acc' = (case m of Constant v \<Rightarrow> acc | _ \<Rightarrow> acc @ [m])"
  have st: "list_all wf_expr acc'"
    "sum_list (map pweight acc') \<le> sum_list (map pweight acc) + pweight m"
    using m(2) Cons.prems(2) by (cases m; simp add: acc'_def)+
  from Cons.IH [OF oks st(1)] obtain final where final:
    "collapse_loop rec ts acc' = Some (Inr final)" "list_all wf_expr final"
    "sum_list (map pweight final) \<le> sum_list (map pweight acc') + terms_weight ts"
    by blast
  have "collapse_loop rec (t # ts) acc = Some (Inr final)"
    by (simp add: t m(1) bind_res_simps final(1) [unfolded acc'_def])
  with final st(2) m(3) show ?case by (simp add: t terms_weight_def)
qed

lemma terms_weight_member:
  "(b, ex) \<in> set terms \<Longrightarrow> pweight b \<le> terms_weight terms"
  by (induction terms) (auto simp add: terms_weight_def)

lemma terms_wf_member: "(b, ex) \<in> set terms \<Longrightarrow> terms_wf terms \<Longrightarrow> wf_expr b"
  by (auto simp add: terms_wf_def list_all_iff)

lemma weight_member: "x \<in> set xs \<Longrightarrow> weight x \<le> sum_list (map weight xs)"
  by (induction xs) auto

lemma pweight_member: "x \<in> set xs \<Longrightarrow> pweight x \<le> sum_list (map pweight xs)"
  by (induction xs) auto


lemma simp_ok_Variable: "simp_ok (simp h) (Variable name)"
  by (simp add: simp_ok_def simp_Variable)

lemma simp_ok_Constant: "simp_ok (simp h) (Constant v)"
  by (simp add: simp_ok_def simp_Constant pweight_def)

lemma simp_ok_Max:
  assumes "wf_expr (Max_expr ops)" "list_all (simp_ok (simp h)) ops"
  shows "simp_ok (simp h) (Max_expr ops)"
proof -
  from assms(1) have ne: "ops \<noteq> []" by simp
  from Max_loop_ok [OF assms(2), of "[]"] ne obtain new where new:
    "Max_loop (simp h) ops [] = Some (Inr new)" "list_all wf_expr new"
    "sum_list (map weight new) \<le> sum_list (map weight ops)" "new \<noteq> []"
    by auto
  show ?thesis
  proof (cases new)
    case Nil
    with new(4) show ?thesis by simp
  next
    case (Cons x xs)
    show ?thesis
    proof (cases xs)
      case Nil
      have "simp h (Max_expr ops) = Some (Inr x)"
        by (simp add: simp_Max new(1) bind_res_simps Cons Nil)
      moreover have "wf_expr x" using new(2) Cons by simp
      moreover have w: "weight x \<le> weight (Max_expr ops)" using new(3) Cons Nil by simp
      moreover have "pweight x \<le> pweight (Max_expr ops)"
        using pweight_le [of x] w by (simp add: pweight_def)
      ultimately show ?thesis by (simp add: simp_ok_def)
    next
      case (Cons y ys)
      have "simp h (Max_expr ops) = Some (Inr (Max_expr new))"
        by (simp add: simp_Max new(1) bind_res_simps \<open>new = x # xs\<close> Cons)
      moreover have "wf_expr (Max_expr new)" using new(2,4) by simp
      moreover have "weight (Max_expr new) \<le> weight (Max_expr ops)" using new(3) by simp
      ultimately show ?thesis by (simp add: simp_ok_def pweight_def)
    qed
  qed
qed

lemma simp_ok_Min:
  assumes "wf_expr (Min_expr ops)" "list_all (simp_ok (simp h)) ops"
  shows "simp_ok (simp h) (Min_expr ops)"
proof -
  from assms(1) have ne: "ops \<noteq> []" by simp
  from Min_loop_ok [OF assms(2), of "[]"] ne obtain new where new:
    "Min_loop (simp h) ops [] = Some (Inr new)" "list_all wf_expr new"
    "sum_list (map weight new) \<le> sum_list (map weight ops)" "new \<noteq> []"
    by auto
  show ?thesis
  proof (cases new)
    case Nil
    with new(4) show ?thesis by simp
  next
    case (Cons x xs)
    show ?thesis
    proof (cases xs)
      case Nil
      have "simp h (Min_expr ops) = Some (Inr x)"
        by (simp add: simp_Min new(1) bind_res_simps Cons Nil)
      moreover have "wf_expr x" using new(2) Cons by simp
      moreover have w: "weight x \<le> weight (Min_expr ops)" using new(3) Cons Nil by simp
      moreover have "pweight x \<le> pweight (Min_expr ops)"
        using pweight_le [of x] w by (simp add: pweight_def)
      ultimately show ?thesis by (simp add: simp_ok_def)
    next
      case (Cons y ys)
      have "simp h (Min_expr ops) = Some (Inr (Min_expr new))"
        by (simp add: simp_Min new(1) bind_res_simps \<open>new = x # xs\<close> Cons)
      moreover have "wf_expr (Min_expr new)" using new(2,4) by simp
      moreover have "weight (Min_expr new) \<le> weight (Min_expr ops)" using new(3) by simp
      ultimately show ?thesis by (simp add: simp_ok_def pweight_def)
    qed
  qed
qed

lemma simp_ok_Add:
  assumes "wf_expr (Add summands)" "simp_ok (simp h) (Max_expr summands)"
  shows "simp_ok (simp h) (Add summands)"
proof -
  from assms(1) have ne: "summands \<noteq> []" by simp
  from assms(2) obtain r where r: "simp h (Max_expr summands) = Some (Inr r)" "wf_expr r"
    "weight r \<le> weight (Max_expr summands)" "pweight r \<le> pweight (Max_expr summands)"
    by (rule simp_okE)
  have "simp h (Add summands) = Some (Inr r)" using ne r(1) by (simp add: simp_Add)
  with r(2,3,4) show ?thesis by (simp add: simp_ok_def pweight_def)
qed

lemma simp_ok_Mul:
  assumes wf: "wf_expr (Mul factors)"
    and factors: "list_all (simp_ok (simp h)) factors"
    and monomials: "\<And>b ex. wf_expr b \<Longrightarrow> pweight b < weight (Mul factors)
                      \<Longrightarrow> simp_ok (simp h) (Power b ex)"
  shows "simp_ok (simp h) (Mul factors)"
proof -
  from flatten_loop_ok [OF factors, of "[]"] obtain new where new:
    "flatten_loop (simp h) factors [] = Some (Inr new)" "list_all wf_expr new"
    "sum_list (map pweight new) \<le> sum_list (map pweight factors)"
    by auto
  define terms where "terms = gather_loop new []"
  from gather_loop_props [OF new(2), of "[]"] have terms:
    "terms_wf terms" "terms_weight terms \<le> sum_list (map pweight new)"
    by (simp_all add: terms_def terms_wf_def terms_weight_def)
  have "list_all (\<lambda>(b, e). simp_ok (simp h) (Power b e)) terms"
    unfolding list_all_iff
  proof (clarify)
    fix b ex
    assume mem: "(b, ex) \<in> set terms"
    have "wf_expr b" using mem terms(1) by (rule terms_wf_member)
    moreover have "pweight b < weight (Mul factors)"
      using terms_weight_member [OF mem] terms(2) new(3) by (simp add: weight_Mul)
    ultimately show "simp_ok (simp h) (Power b ex)" by (rule monomials)
  qed
  from collapse_loop_ok [OF this, of "[]"] obtain final where final:
    "collapse_loop (simp h) terms [] = Some (Inr final)" "list_all wf_expr final"
    "sum_list (map pweight final) \<le> terms_weight terms"
    by auto
  have "simp h (Mul factors) = Some (Inr (Mul final))"
    by (simp add: simp_Mul new(1) bind_res_simps terms_def [symmetric] final(1))
  moreover have "wf_expr (Mul final)" using final(2) by simp
  moreover have "weight (Mul final) \<le> weight (Mul factors)"
    using final(3) terms(2) new(3) by (simp add: weight_Mul)
  ultimately show ?thesis by (simp add: simp_ok_def pweight_def)
qed

lemma wf_expr_mul: "wf_expr a \<Longrightarrow> wf_expr b \<Longrightarrow> wf_expr (expr_mul a b)"
  by (cases a; cases b) (simp_all add: expr_mul_def)

lemma weight_expr_mul_Power:
  "weight (expr_mul n (Power d ex)) < weight (Div n d)"
proof (cases n)
  case (Mul ns)
  have "weight (expr_mul n (Power d ex)) = weight n + pweight d"
    by (simp add: Mul expr_mul_def weight_eqs)
  with weight_le_pweight [of n] show ?thesis by (simp add: weight_Div)
qed (simp_all add: expr_mul_def weight_eqs)

lemma simp_ok_Div:
  assumes "wf_expr (Div n d)" "simp_ok (simp h) (expr_mul n (Power d (- 1)))"
  shows "simp_ok (simp h) (Div n d)"
proof -
  from assms(2) obtain r where r: "simp h (expr_mul n (Power d (- 1))) = Some (Inr r)"
    "wf_expr r" "weight r \<le> weight (expr_mul n (Power d (- 1)))"
    by (rule simp_okE)
  have "simp h (Div n d) = Some (Inr r)" using r(1) by (simp add: simp_Div)
  moreover have w: "weight r \<le> weight (Div n d)"
    using r(3) weight_expr_mul_Power [of n d "- 1"] by simp
  moreover have "pweight r \<le> pweight (Div n d)"
    using pweight_le [of r] w by (simp add: pweight_def)
  ultimately show ?thesis using r(2) by (simp add: simp_ok_def)
qed

lemma simp_ok_Power:
  assumes wf: "wf_expr (Power b ex)"
    and base: "simp_ok (simp h) b"
    and distribute: "\<And>m. wf_expr m \<Longrightarrow> weight m < pweight b \<Longrightarrow> simp_ok (simp h) m"
  shows "simp_ok (simp h) (Power b ex)"
proof -
  from base obtain b' where b': "simp h b = Some (Inr b')" "wf_expr b'"
    "weight b' \<le> weight b" "pweight b' \<le> pweight b"
    by (rule simp_okE)
  have unfold: "simp h (Power b ex) =
      (if ex = 1 then Some (Inr b')
       else if ex = 0 \<or> (case b' of Constant v \<Rightarrow> True | _ \<Rightarrow> False)
         then Some (Inr (Constant 1))
       else case b' of
           Power b2 e2 \<Rightarrow> Some (Inr (Power b2 (e2 * ex)))
         | Mul fs \<Rightarrow> simp h (Mul (map (\<lambda>factor. Power factor ex) fs))
         | _ \<Rightarrow> Some (Inr (Power b' ex)))"
    by (subst simp_Power) (simp add: b'(1) bind_res_simps)
  have one: "simp_ok (simp h) (Power b ex)"
    if "simp h (Power b ex) = Some (Inr (Constant 1))"
    using that pweight_ge2 [of b] by (simp add: simp_ok_def weight_eqs pweight_def [of "Constant 1"])
  show ?thesis
  proof (cases "ex = 1")
    case True
    have "simp h (Power b ex) = Some (Inr b')" by (subst unfold) (simp add: True)
    with b'(2,4) weight_le_pweight [of b'] show ?thesis
      by (simp add: simp_ok_def weight_eqs)
  next
    case ex1: False
    show ?thesis
    proof (cases "ex = 0")
      case True
      show ?thesis by (rule one, subst unfold) (simp add: True)
    next
      case ex0: False
      show ?thesis
      proof (cases b')
        case (Constant v)
        show ?thesis by (rule one, subst unfold) (simp add: ex1 Constant)
      next
        case (Power b2 e2)
        have "simp h (Power b ex) = Some (Inr (Power b2 (e2 * ex)))"
          using ex1 ex0 by (simp add: unfold Power)
        with b'(2,4) show ?thesis by (simp add: simp_ok_def weight_eqs Power)
      next
        case (Mul fs)
        define m where "m = Mul (map (\<lambda>factor. Power factor ex) fs)"
        have wm: "weight m = weight b'"
          by (simp add: m_def Mul weight_Mul comp_def pweight_Power)
        have pb': "pweight b' = 2 * weight b'" by (simp add: Mul pweight_def)
        have "wf_expr m" using b'(2) by (simp add: m_def Mul list_all_iff)
        moreover have "weight m < pweight b"
          using wm pb' b'(4) weight_pos [of b'] by simp
        ultimately have "simp_ok (simp h) m" by (rule distribute)
        then obtain r where r: "simp h m = Some (Inr r)" "wf_expr r" "weight r \<le> weight m"
          "pweight r \<le> pweight m"
          by (rule simp_okE)
        have "simp h (Power b ex) = Some (Inr r)"
          using ex1 ex0 r(1) by (simp add: unfold Mul m_def)
        moreover have "pweight r \<le> pweight b"
        proof -
          have "pweight m = 2 * weight m" by (simp add: pweight_def m_def)
          with r(4) wm pb' b'(4) show ?thesis by simp
        qed
        moreover have "weight r \<le> pweight b"
          using r(3) wm weight_le_pweight [of b'] b'(4) by simp
        ultimately show ?thesis using r(2) by (simp add: simp_ok_def weight_eqs)
      next
        case (Variable name)
        have "simp h (Power b ex) = Some (Inr (Power b' ex))"
          using ex1 ex0 by (simp add: unfold Variable)
        with b'(2,4) show ?thesis by (simp add: simp_ok_def weight_eqs)
      next
        case (Max_expr ops)
        have "simp h (Power b ex) = Some (Inr (Power b' ex))"
          using ex1 ex0 by (simp add: unfold Max_expr)
        with b'(2,4) show ?thesis by (simp add: simp_ok_def weight_eqs)
      next
        case (Min_expr ops)
        have "simp h (Power b ex) = Some (Inr (Power b' ex))"
          using ex1 ex0 by (simp add: unfold Min_expr)
        with b'(2,4) show ?thesis by (simp add: simp_ok_def weight_eqs)
      next
        case (Add ops)
        have "simp h (Power b ex) = Some (Inr (Power b' ex))"
          using ex1 ex0 by (simp add: unfold Add)
        with b'(2,4) show ?thesis by (simp add: simp_ok_def weight_eqs)
      next
        case (Div n d)
        have "simp h (Power b ex) = Some (Inr (Power b' ex))"
          using ex1 ex0 by (simp add: unfold Div)
        with b'(2,4) show ?thesis by (simp add: simp_ok_def weight_eqs)
      qed
    qed
  qed
qed

lemma simp_ok_all: "wf_expr e \<longrightarrow> simp_ok (simp h) e"
proof (induction e rule: wf_induct_rule [OF wf_measures [of "[weight, size]"]])
  case (1 e)
  have lighter: "simp_ok (simp h) y" if "wf_expr y" "weight y < weight e" for y
    using "1.IH" [of y] that by simp
  have smaller: "simp_ok (simp h) y" if "wf_expr y" "weight y \<le> weight e" "size y < size e" for y
  proof -
    have "(y, e) \<in> measures [weight, size]" using that(2,3) by auto
    with "1.IH" [of y] that(1) show ?thesis by blast
  qed
  show ?case
  proof
    assume wf: "wf_expr e"
    show "simp_ok (simp h) e"
    proof (cases e)
      case (Variable name)
      then show ?thesis by (simp add: simp_ok_Variable)
    next
      case (Constant v)
      then show ?thesis by (simp add: simp_ok_Constant)
    next
      case (Max_expr ops)
      have "list_all (simp_ok (simp h)) ops"
        unfolding list_all_iff
      proof
        fix op assume "op \<in> set ops"
        with wf weight_member [of op ops] show "simp_ok (simp h) op"
          by (intro lighter) (simp_all add: Max_expr list_all_iff)
      qed
      with wf show ?thesis unfolding Max_expr by (intro simp_ok_Max)
    next
      case (Min_expr ops)
      have "list_all (simp_ok (simp h)) ops"
        unfolding list_all_iff
      proof
        fix op assume "op \<in> set ops"
        with wf weight_member [of op ops] show "simp_ok (simp h) op"
          by (intro lighter) (simp_all add: Min_expr list_all_iff)
      qed
      with wf show ?thesis unfolding Min_expr by (intro simp_ok_Min)
    next
      case (Add summands)
      have "simp_ok (simp h) (Max_expr summands)"
        using wf by (intro lighter) (simp_all add: Add)
      with wf show ?thesis unfolding Add by (intro simp_ok_Add)
    next
      case (Mul factors)
      have "list_all (simp_ok (simp h)) factors"
        unfolding list_all_iff
      proof
        fix f assume "f \<in> set factors"
        with wf pweight_member [of f factors] weight_le_pweight [of f]
        show "simp_ok (simp h) f"
          by (intro lighter) (simp_all add: Mul list_all_iff weight_Mul)
      qed
      moreover have "simp_ok (simp h) (Power b ex)"
        if "wf_expr b" "pweight b < weight (Mul factors)" for b ex
        using that by (intro lighter) (simp_all add: Mul weight_Power)
      ultimately show ?thesis using wf unfolding Mul by (intro simp_ok_Mul)
    next
      case (Div n d)
      have "simp_ok (simp h) (expr_mul n (Power d (- 1)))"
        using wf weight_expr_mul_Power [of n d "- 1"]
        by (intro lighter) (simp_all add: Div wf_expr_mul)
      with wf show ?thesis unfolding Div by (intro simp_ok_Div)
    next
      case (Power b ex)
      have "simp_ok (simp h) b"
        using wf weight_le_pweight [of b] by (intro smaller) (simp_all add: Power weight_Power)
      moreover have "simp_ok (simp h) m" if "wf_expr m" "weight m < pweight b" for m
        using that by (intro lighter) (simp_all add: Power weight_Power)
      ultimately show ?thesis using wf unfolding Power by (intro simp_ok_Power)
    qed
  qed
qed


section \<open>Properties of the operations\<close>

text \<open>\<open>simp\<close> returns an expression on every expression that the constructors can build.\<close>

lemma simp_total:
  assumes "wf_expr e"
  obtains r where "simp h e = Some (Inr r)" "wf_expr r"
  using simp_ok_all [of e h] assms unfolding simp_ok_def by blast

text \<open>\<open>defeq\<close> is reflexive.\<close>

lemma set_defeq_refl: "(\<And>x. x \<in> set xs \<Longrightarrow> defeq x x) \<Longrightarrow> set_defeq xs xs"
  by (induction xs) simp_all

lemma defeq_refl: "defeq e e"
  by (induction e) (simp_all add: set_defeq_refl)

text \<open>
  The first two tests of \<^verbatim>\<open>Power.simp\<close>: a first power is simplified as its base, and a power
  with exponent \<open>0\<close> to the constant \<open>1\<close>.
\<close>

lemma simp_Power_one: "simp h (Power x 1) = simp h x"
  by (subst simp_Power) (simp add: bind_res_def split: option.splits sum.splits)

lemma simp_Power_zero:
  assumes "wf_expr x"
  shows "simp h (Power x 0) = Some (Inr (Constant 1))"
proof -
  from assms obtain r where "simp h x = Some (Inr r)" by (rule simp_total)
  then show ?thesis by (subst simp_Power) (simp add: bind_res_simps)
qed

text \<open>\<^verbatim>\<open>Mul.simp\<close> and \<^verbatim>\<open>Div.simp\<close> return a product whenever they return.\<close>

lemma simp_Mul_result:
  assumes "simp h (Mul factors) = Some (Inr r)"
  shows "\<exists>final. r = Mul final"
  using assms unfolding simp_Mul bind_res_def
  by (auto split: option.splits sum.splits)

lemma simp_Div_result:
  assumes "simp h (Div n d) = Some (Inr r)"
  shows "\<exists>final. r = Mul final"
  using assms unfolding simp_Div expr_mul_def by (rule simp_Mul_result)

text \<open>\<^verbatim>\<open>Estimate.simp\<close>, operator by operator.\<close>

lemma Estimate_simp_oriented:
  assumes "operator \<noteq> Lesssim" "operator \<noteq> Ll"
  shows "Estimate_simp h left operator right =
     bind_res (simp h (Div left right)) (\<lambda>left'.
        if defeq left' (Constant 1)
        then Some (Inr (Bool (operator \<in> {Lesssim, Gtrsim, Asymp})))
        else Some (Inr (Estimate left' operator (Constant 1))))"
  using assms by (subst Estimate_simp.simps) simp

lemma Estimate_simp_Lesssim:
  "Estimate_simp h left Lesssim right = Estimate_simp h right Gtrsim left"
  by (subst Estimate_simp.simps) simp

lemma Estimate_simp_Ll:
  "Estimate_simp h left Ll right = Estimate_simp h right Gg left"
  by (subst Estimate_simp.simps) simp

text \<open>
  The quotient that \<^verbatim>\<open>Estimate.simp\<close> compares with \<^verbatim>\<open>Constant(1)\<close> is a product, and a
  product is never \<^verbatim>\<open>defeq\<close> to a constant: no estimate is simplified to a boolean.
\<close>

lemma Estimate_simp_never_Bool: "Estimate_simp h left operator right \<noteq> Some (Inr (Bool b))"
proof -
  have *: "Estimate_simp h l op r \<noteq> Some (Inr (Bool b))" if "op \<noteq> Lesssim" "op \<noteq> Ll" for l op r
  proof (cases "simp h (Div l r)")
    case None
    then show ?thesis by (simp add: Estimate_simp_oriented [OF that] bind_res_simps)
  next
    case (Some res)
    show ?thesis
    proof (cases res)
      case (Inl err)
      with Some show ?thesis by (simp add: Estimate_simp_oriented [OF that] bind_res_simps)
    next
      case (Inr x)
      with Some simp_Div_result [of h l r x] obtain final where "x = Mul final" by auto
      with Some Inr show ?thesis by (simp add: Estimate_simp_oriented [OF that] bind_res_simps)
    qed
  qed
  show ?thesis
    by (cases operator) (simp_all add: Estimate_simp_Lesssim Estimate_simp_Ll *)
qed

section \<open>Claims\<close>

text \<open>
  C1. Idempotence: \<^verbatim>\<open>simp(simp(e))\<close> should be \<^verbatim>\<open>defeq\<close> to \<^verbatim>\<open>simp(e)\<close> for every expression
  \<open>e\<close>. For \<open>e = (x ^ 2) ^ (1/2)\<close> the branch of \<^verbatim>\<open>Power.simp\<close> for a base that is a power
  multiplies the exponents and returns \<open>x ^ 1\<close> without looking at the new exponent; a
  second \<^verbatim>\<open>simp\<close> returns \<open>x\<close>, which is not \<^verbatim>\<open>defeq\<close> to \<open>x ^ 1\<close>, in either order of the
  comparison.
\<close>

theorem C1_not_idempotent:
  "simp h (Power (Power (Variable x) 2) (1 / 2)) = Some (Inr (Power (Variable x) 1))
   \<and> simp h (Power (Variable x) 1) = Some (Inr (Variable x))
   \<and> \<not> defeq (Variable x) (Power (Variable x) 1)
   \<and> \<not> defeq (Power (Variable x) 1) (Variable x)"
  by (simp add: simp_eqs bind_res_simps)

text \<open>
  C2. Self-comparison: \<^verbatim>\<open>simp\<close> of \<open>a >~ a\<close> should be the boolean true and \<^verbatim>\<open>simp\<close> of
  \<open>a >> a\<close> the boolean false. For a variable \<open>x\<close> the quotient \<open>x / x\<close> is simplified to
  the empty product, which is not \<^verbatim>\<open>defeq\<close> to \<^verbatim>\<open>Constant(1)\<close>, and \<^verbatim>\<open>Estimate.simp\<close> returns
  an estimate in both cases.
\<close>

theorem C2_self_comparison_not_decided:
  "Estimate_simp h (Variable x) Gtrsim (Variable x)
     = Some (Inr (Estimate (Mul []) Gtrsim (Constant 1)))
   \<and> Estimate_simp h (Variable x) Gg (Variable x)
     = Some (Inr (Estimate (Mul []) Gg (Constant 1)))"
  by (simp add: Estimate_simp_oriented simp_eqs expr_mul_def bind_res_simps)

text \<open>
  C3. Self-division: for every variable \<open>x\<close>, \<^verbatim>\<open>simp(x / x)\<close> should be \<^verbatim>\<open>defeq\<close> to
  \<^verbatim>\<open>Constant(1)\<close>. In the program the exponents of \<open>x\<close> add up to \<open>0\<close>, the monomial \<open>x ^ 0\<close>
  is the constant \<open>1\<close> and is removed, and \<^verbatim>\<open>Mul.simp\<close> returns the empty product
  \<^verbatim>\<open>Mul()\<close>, which is not \<^verbatim>\<open>defeq\<close> to \<^verbatim>\<open>Constant(1)\<close>, in either order of the comparison.
\<close>

theorem C3_self_division_is_empty_product:
  "simp h (Div (Variable x) (Variable x)) = Some (Inr (Mul []))
   \<and> \<not> defeq (Mul []) (Constant 1) \<and> \<not> defeq (Constant 1) (Mul [])"
  by (simp add: simp_eqs expr_mul_def bind_res_simps)

text \<open>
  C4. Exponent gathering: \<^verbatim>\<open>simp(x * x)\<close> should be \<^verbatim>\<open>defeq\<close> to \<^verbatim>\<open>simp(Power(x, 2))\<close>. For a
  variable \<open>x\<close> the product is simplified to the product with the one factor \<open>x ^ 2\<close>, and
  the power to \<open>x ^ 2\<close> itself; a product is not \<^verbatim>\<open>defeq\<close> to a power.
\<close>

theorem C4_square_of_variable:
  "simp h (expr_mul (Variable x) (Variable x)) = Some (Inr (Mul [Power (Variable x) 2]))
   \<and> simp h (Power (Variable x) 2) = Some (Inr (Power (Variable x) 2))
   \<and> \<not> defeq (Mul [Power (Variable x) 2]) (Power (Variable x) 2)
   \<and> \<not> defeq (Power (Variable x) 2) (Mul [Power (Variable x) 2])"
  by (simp add: simp_eqs expr_mul_def bind_res_simps)

text \<open>
  C5. Power laws: \<^verbatim>\<open>simp(Power(Power(x, p), q))\<close> should be \<^verbatim>\<open>defeq\<close> to
  \<^verbatim>\<open>simp(Power(x, p*q))\<close>. For a variable \<open>x\<close>, \<open>p = 3\<close> and \<open>q = 1/3\<close> the left side is
  \<open>x ^ 1\<close> and the right side is \<open>x\<close>, which are not \<^verbatim>\<open>defeq\<close>. (The laws for the exponents
  \<open>1\<close> and \<open>0\<close> hold: \<open>simp_Power_one\<close> and \<open>simp_Power_zero\<close>.)
\<close>

theorem C5_nested_power:
  "simp h (Power (Power (Variable x) 3) (1 / 3)) = Some (Inr (Power (Variable x) 1))
   \<and> simp h (Power (Variable x) (3 * (1 / 3))) = Some (Inr (Variable x))
   \<and> \<not> defeq (Power (Variable x) 1) (Variable x)
   \<and> \<not> defeq (Variable x) (Power (Variable x) 1)"
  by (simp add: simp_eqs bind_res_simps)

text \<open>
  C6. Canonical form of \<^verbatim>\<open>Estimate.simp\<close>, as amended. For every estimate between expressions
  that the constructors can build, and every set of hypotheses, \<^verbatim>\<open>simp\<close> returns either a
  boolean constant or a new estimate whose right side is \<^verbatim>\<open>Constant(1)\<close>, whose left side is
  the normalized ratio and whose operator is the given one after the reversal, one of
  \<^verbatim>\<open>>~\<close>, \<^verbatim>\<open>>>\<close> and \<^verbatim>\<open>~\<close>. The ratio is that of the left side to the right side after the
  reversal: the two sides are exchanged for \<^verbatim>\<open><~\<close> and \<^verbatim>\<open><<\<close>. Whenever the normalized ratio is
  \<^verbatim>\<open>defeq\<close> to \<^verbatim>\<open>Constant(1)\<close>, the result is the boolean true for \<^verbatim>\<open>>~\<close> and \<^verbatim>\<open>~\<close> and the
  boolean false for the strict \<^verbatim>\<open>>>\<close>; otherwise it is the new estimate.
\<close>

theorem C6_estimate_simp_canonical:
  assumes "wf_expr left" "wf_expr right"
  shows "\<exists>ratio.
      simp h (if operator \<in> {Lesssim, Ll} then Div right left else Div left right)
        = Some (Inr ratio)
    \<and> Estimate_simp h left operator right =
        Some (Inr (if defeq ratio (Constant 1)
                   then Bool (reversed_operator operator \<noteq> Gg)
                   else Estimate ratio (reversed_operator operator) (Constant 1)))
    \<and> reversed_operator operator \<in> {Gtrsim, Gg, Asymp}"
proof -
  have *: "\<exists>ratio. simp h (Div l r) = Some (Inr ratio)
    \<and> Estimate_simp h l op r =
        Some (Inr (if defeq ratio (Constant 1) then Bool (op \<noteq> Gg)
                   else Estimate ratio op (Constant 1)))"
    if "op \<noteq> Lesssim" "op \<noteq> Ll" "wf_expr l" "wf_expr r" for l op r
  proof -
    from that(3,4) have "wf_expr (Div l r)" by simp
    then obtain ratio where "simp h (Div l r) = Some (Inr ratio)" by (rule simp_total)
    with that(1,2) show ?thesis
      by (cases op) (simp_all add: Estimate_simp_oriented bind_res_simps)
  qed
  show ?thesis
  proof (cases operator)
    case Lesssim
    from * [of Gtrsim right left] assms obtain ratio where
      "simp h (Div right left) = Some (Inr ratio)"
      "Estimate_simp h right Gtrsim left =
        Some (Inr (if defeq ratio (Constant 1) then Bool (Gtrsim \<noteq> Gg)
                   else Estimate ratio Gtrsim (Constant 1)))"
      by auto
    then show ?thesis
      by (intro exI [of _ ratio]) (simp add: Lesssim Estimate_simp_Lesssim)
  next
    case Ll
    from * [of Gg right left] assms obtain ratio where
      "simp h (Div right left) = Some (Inr ratio)"
      "Estimate_simp h right Gg left =
        Some (Inr (if defeq ratio (Constant 1) then Bool (Gg \<noteq> Gg)
                   else Estimate ratio Gg (Constant 1)))"
      by auto
    then show ?thesis
      by (intro exI [of _ ratio]) (simp add: Ll Estimate_simp_Ll)
  next
    case Asymp
    from * [of Asymp left right] assms obtain ratio where
      "simp h (Div left right) = Some (Inr ratio)"
      "Estimate_simp h left Asymp right =
        Some (Inr (if defeq ratio (Constant 1) then Bool (Asymp \<noteq> Gg)
                   else Estimate ratio Asymp (Constant 1)))"
      by auto
    then show ?thesis
      by (intro exI [of _ ratio]) (simp add: Asymp)
  next
    case Gtrsim
    from * [of Gtrsim left right] assms obtain ratio where
      "simp h (Div left right) = Some (Inr ratio)"
      "Estimate_simp h left Gtrsim right =
        Some (Inr (if defeq ratio (Constant 1) then Bool (Gtrsim \<noteq> Gg)
                   else Estimate ratio Gtrsim (Constant 1)))"
      by auto
    then show ?thesis
      by (intro exI [of _ ratio]) (simp add: Gtrsim)
  next
    case Gg
    from * [of Gg left right] assms obtain ratio where
      "simp h (Div left right) = Some (Inr ratio)"
      "Estimate_simp h left Gg right =
        Some (Inr (if defeq ratio (Constant 1) then Bool (Gg \<noteq> Gg)
                   else Estimate ratio Gg (Constant 1)))"
      by auto
    then show ?thesis
      by (intro exI [of _ ratio]) (simp add: Gg)
  qed
qed

theorem C6_estimate_simp_canonical_witness:
  "wf_expr (Variable ''x'') \<and> wf_expr (Add [Variable ''y'', Constant 2])
   \<and> simp () (Div (Add [Variable ''y'', Constant 2]) (Variable ''x''))
      = Some (Inr (Mul [Max_expr [Variable ''y'', Constant 1], Power (Variable ''x'') (- 1)]))
   \<and> Estimate_simp () (Variable ''x'') Ll (Add [Variable ''y'', Constant 2])
      = Some (Inr (Estimate
          (Mul [Max_expr [Variable ''y'', Constant 1], Power (Variable ''x'') (- 1)])
          Gg (Constant 1)))
   \<and> reversed_operator Ll = Gg"
  using C6_estimate_simp_canonical [of "Variable ''x''" "Add [Variable ''y'', Constant 2]" "()" Ll]
  by (simp add: Estimate_simp_Ll Estimate_simp_oriented simp_eqs expr_mul_def bind_res_simps
      add_to_def)

text \<open>
  The claim as first stated names the operators \<^verbatim>\<open><~\<close>, \<^verbatim>\<open>>~\<close> and \<^verbatim>\<open>~\<close> for the new estimate;
  the estimate \<open>x >> y\<close> between two variables is simplified to an estimate with \<^verbatim>\<open>>>\<close>.
\<close>

theorem C6_strict_operator_counterexample:
  "Estimate_simp () (Variable ''x'') Gg (Variable ''y'')
     = Some (Inr (Estimate (Mul [Variable ''x'', Power (Variable ''y'') (- 1)]) Gg (Constant 1)))
   \<and> Gg \<notin> {Lesssim, Gtrsim, Asymp}"
  by (simp add: Estimate_simp_oriented simp_eqs expr_mul_def bind_res_simps)

text \<open>
  C7. The case of exactly two magnitudes \<open>a\<close> and \<open>b\<close>, as amended. \<^verbatim>\<open>LittlewoodPaley\<close>
  returns the relation \<^verbatim>\<open>asymp(a, b)\<close> itself, by a test of its own, and no object of the
  general construction. \<^verbatim>\<open>LP_property\<close> has no such test: its loop runs once, finds no
  other magnitude, and the result is the general disjunction of conjunctions with one case
  and the single conjunct \<open>a ~ b\<close>.
\<close>

theorem C7_two_magnitudes:
  "LittlewoodPaley_new asymp_of Theta [a, b] = Inr (Relation (asymp_of a b))
   \<and> LP_property [a', b'] = Inr (Or [And [Estimate a' Asymp b']])"
  by (simp add: LittlewoodPaley_new_def LP_property_def LP_conjuncts_def defeq_refl)

text \<open>
  The claim as first stated has every builder return the relation \<open>a ~ b\<close> itself; the result
  of \<^verbatim>\<open>LP_property\<close> on two variables is not that estimate.
\<close>

theorem C7_LP_property_counterexample:
  "LP_property [Variable ''a'', Variable ''b'']
     = Inr (Or [And [Estimate (Variable ''a'') Asymp (Variable ''b'')]])
   \<and> LP_property [Variable ''a'', Variable ''b'']
     \<noteq> Inr (Estimate (Variable ''a'') Asymp (Variable ''b''))"
  by (simp add: LP_property_def LP_conjuncts_def)

text \<open>
  C8. For three variables \<open>N1\<close>, \<open>N2\<close> and \<open>N3\<close> with different names, \<^verbatim>\<open>LP_property\<close>
  returns a disjunction of exactly three cases, one for each pair, and each case is a
  conjunction of exactly two estimates: \<open>i ~ j\<close> for the pair, and \<open>k <~ i\<close> for the third
  variable \<open>k\<close>.
\<close>

theorem C8_three_variables:
  assumes "distinct [n1, n2, n3]"
  shows "\<exists>c12 c13 c23.
      LP_property [Variable n1, Variable n2, Variable n3] = Inr (Or [And c12, And c13, And c23])
    \<and> length c12 = 2 \<and> length c13 = 2 \<and> length c23 = 2
    \<and> set c12 = {Estimate (Variable n1) Asymp (Variable n2),
                  Estimate (Variable n3) Lesssim (Variable n1)}
    \<and> set c13 = {Estimate (Variable n1) Asymp (Variable n3),
                  Estimate (Variable n2) Lesssim (Variable n1)}
    \<and> set c23 = {Estimate (Variable n2) Asymp (Variable n3),
                  Estimate (Variable n1) Lesssim (Variable n2)}"
  using assms by (auto simp add: LP_property_def LP_conjuncts_def)

theorem C8_three_variables_witness:
  "distinct [''N1'', ''N2'', ''N3'']
   \<and> LP_property [Variable ''N1'', Variable ''N2'', Variable ''N3'']
     = Inr (Or [And [Estimate (Variable ''N1'') Asymp (Variable ''N2''),
                     Estimate (Variable ''N3'') Lesssim (Variable ''N1'')],
                And [Estimate (Variable ''N1'') Asymp (Variable ''N3''),
                     Estimate (Variable ''N2'') Lesssim (Variable ''N1'')],
                And [Estimate (Variable ''N2'') Asymp (Variable ''N3''),
                     Estimate (Variable ''N1'') Lesssim (Variable ''N2'')]])"
  using C8_three_variables [of "''N1''" "''N2''" "''N3''"]
  by (simp add: LP_property_def LP_conjuncts_def)

text \<open>
  C9. Both builders of the Littlewood-Paley property fail with \<open>InsufficientArguments\<close>
  exactly when they are given fewer than two magnitudes.
\<close>

theorem C9_minimum_arity:
  "(LP_property args = Inl InsufficientArguments) = (length args < 2)
   \<and> (LittlewoodPaley_new asymp_of Theta xs = Inl InsufficientArguments) = (length xs < 2)"
  by (auto simp add: LP_property_def LittlewoodPaley_new_def)

text \<open>
  C10. For every expression that the constructors can build, \<^verbatim>\<open>simp\<close> returns an expression:
  no assertion fails. When the expression is a \<^verbatim>\<open>Max\<close> or a \<^verbatim>\<open>Min\<close>, the loop over its
  operands ends with a set of new operands that is not empty.
\<close>

theorem C10_reduced_operand_set_nonempty:
  assumes "wf_expr e"
  shows "(\<exists>r. simp h e = Some (Inr r))
    \<and> (case e of
         Max_expr operands \<Rightarrow>
           (\<exists>new_operands. Max_loop (simp h) operands [] = Some (Inr new_operands)
              \<and> new_operands \<noteq> [])
       | Min_expr operands \<Rightarrow>
           (\<exists>new_operands. Min_loop (simp h) operands [] = Some (Inr new_operands)
              \<and> new_operands \<noteq> [])
       | _ \<Rightarrow> True)"
proof -
  have all_ok: "list_all (simp_ok (simp h)) operands" if "list_all wf_expr operands" for operands
    using that simp_ok_all [of _ h] by (simp add: list_all_iff)
  have "\<exists>r. simp h e = Some (Inr r)"
    using simp_ok_all [of e h] assms by (auto simp add: simp_ok_def)
  moreover have "\<exists>new_operands. Max_loop (simp h) operands [] = Some (Inr new_operands)
              \<and> new_operands \<noteq> []" if "e = Max_expr operands" for operands
  proof -
    from assms that have "operands \<noteq> []" "list_all wf_expr operands" by simp_all
    with Max_loop_ok [OF all_ok, of operands "[]"] show ?thesis by auto
  qed
  moreover have "\<exists>new_operands. Min_loop (simp h) operands [] = Some (Inr new_operands)
              \<and> new_operands \<noteq> []" if "e = Min_expr operands" for operands
  proof -
    from assms that have "operands \<noteq> []" "list_all wf_expr operands" by simp_all
    with Min_loop_ok [OF all_ok, of operands "[]"] show ?thesis by auto
  qed
  ultimately show ?thesis by (cases e) simp_all
qed

theorem C10_reduced_operand_set_nonempty_witness:
  "wf_expr (Max_expr [Add [Variable ''x'', Constant 2], Max_expr [Variable ''x'', Constant 3]])
   \<and> simp () (Max_expr [Add [Variable ''x'', Constant 2], Max_expr [Variable ''x'', Constant 3]])
     = Some (Inr (Max_expr [Variable ''x'', Constant 1]))
   \<and> Max_loop (simp ()) [Add [Variable ''x'', Constant 2], Max_expr [Variable ''x'', Constant 3]] []
     = Some (Inr [Variable ''x'', Constant 1])"
  using C10_reduced_operand_set_nonempty
    [of "Max_expr [Add [Variable ''x'', Constant 2], Max_expr [Variable ''x'', Constant 3]]" "()"]
  by (simp add: simp_eqs bind_res_simps add_to_def)

end
